theory Spec2Isabelle
  imports Main "HOL-Library.AList"
begin

section \<open>Python values used by the simulator\<close>

text \<open>
  A Python \<open>dict\<close> is an association list with pairwise distinct keys, kept in
  insertion order: \<open>d[k] = v\<close> is \<open>AList.update k v\<close> (in place when the key is
  stored, appended otherwise), \<open>del d[k]\<close> is \<open>AList.delete k\<close>, \<open>d.clear()\<close> is
  the empty list, \<open>k in d\<close> is membership among the keys and \<open>d.get(k, x)\<close> is
  \<open>dict_get\<close>. A Python \<open>str\<close> is a \<open>string\<close>; a symbol or a state name is a
  \<open>str\<close> of any length.
\<close>

type_synonym ('k, 'v) dict = "('k \<times> 'v) list"

definition dict_keys :: "('k, 'v) dict \<Rightarrow> 'k list" where
  "dict_keys d = map fst d"

definition dict_get :: "('k, 'v) dict \<Rightarrow> 'k \<Rightarrow> 'v \<Rightarrow> 'v" where
  "dict_get d k dflt = (case map_of d k of None \<Rightarrow> dflt | Some v \<Rightarrow> v)"

text \<open>
  \<open>str.upper()\<close>, on the ASCII letters. Characters here are 8-bit; no other
  character of that range is upper-cased by Python to \<open>L\<close>, \<open>R\<close> or \<open>S\<close>, which
  is all that \<open>Tape.move\<close> compares the result with.
\<close>

definition upper_char :: "char \<Rightarrow> char" where
  "upper_char c =
     (if (97::nat) \<le> of_char c \<and> of_char c \<le> (122::nat)
      then char_of (of_char c - (32::nat)) else c)"

definition upper :: "string \<Rightarrow> string" where
  "upper s = map upper_char s"

text \<open>
  Every \<open>raise ValueError(...)\<close> of the source is one constructor, named after the
  place that raises it and carrying a value that its message shows.
\<close>

datatype error =
    InvalidDirection string
  | InvalidInitialState string
  | AcceptStatesNotInStates
  | BlankNotInTapeAlphabet
  | InconsistentTransition string
  | ReadSymbolNotInAlphabet string
  | WriteSymbolNotInAlphabet string

section \<open>tape.py\<close>

record Tape =
  blank_symbol :: string
  cells :: "(int, string) dict"
  head :: int

text \<open>\<open>for i, ch in enumerate(input_string): self._cells[i] = ch\<close>, from index \<open>i\<close>.\<close>

fun load_cells :: "int \<Rightarrow> string \<Rightarrow> (int, string) dict \<Rightarrow> (int, string) dict" where
  "load_cells i [] cs = cs"
| "load_cells i (ch # rest) cs = load_cells (i + 1) rest (AList.update i [ch] cs)"

definition load_input :: "string \<Rightarrow> Tape \<Rightarrow> Tape" where
  "load_input input_string t = t\<lparr>cells := load_cells 0 input_string [], head := 0\<rparr>"

definition read :: "Tape \<Rightarrow> string" where
  "read t = dict_get (cells t) (head t) (blank_symbol t)"

text \<open>\<open>Tape.write\<close> (\<open>write\<close> alone is a keyword of the proof language).\<close>

definition tape_write :: "string \<Rightarrow> Tape \<Rightarrow> Tape" where
  "tape_write symbol t =
     (if symbol = blank_symbol t \<and> head t \<in> set (dict_keys (cells t))
      then t\<lparr>cells := AList.delete (head t) (cells t)\<rparr>
      else t\<lparr>cells := AList.update (head t) symbol (cells t)\<rparr>)"

text \<open>
  \<open>move\<close> mutates the tape and may raise: the result is the exception raised, if
  any, together with the tape as the call leaves it.
\<close>

definition move :: "string \<Rightarrow> Tape \<Rightarrow> error option \<times> Tape" where
  "move direction t =
     (let d = upper direction in
      if d = ''L'' then (None, t\<lparr>head := head t - 1\<rparr>)
      else if d = ''R'' then (None, t\<lparr>head := head t + 1\<rparr>)
      else if d = ''S'' then (None, t)
      else (Some (InvalidDirection direction), t))"

definition used_indices :: "Tape \<Rightarrow> int \<times> int" where
  "used_indices t =
     (if cells t = [] then (head t, head t)
      else let indices = set (dict_keys (cells t)) \<union> {head t}
           in (Min indices, Max indices))"

definition get_view :: "Tape \<Rightarrow> string list \<times> int" where
  "get_view t =
     (case used_indices t of (min_i, max_i) \<Rightarrow>
        (map (\<lambda>i. dict_get (cells t) i (blank_symbol t)) [min_i..max_i],
         head t - min_i))"

definition get_string :: "Tape \<Rightarrow> string" where
  "get_string t = concat (fst (get_view t))"

section \<open>turing_machine.py\<close>

record Transition =
  next_state :: string
  write_symbol :: string
  move_dir :: string

record RunResult =
  input_string :: string
  accepted :: bool
  final_state :: string
  final_tape :: string
  ids :: "string list"

text \<open>
  The attributes of a \<open>TuringMachine\<close> object. The field \<open>tm_blank_symbol\<close> is the
  attribute \<open>blank_symbol\<close> and \<open>move_dir\<close> above is \<open>Transition.move\<close>: the plain
  names are taken by the tape.
\<close>

record TuringMachine =
  states :: "string set"
  input_alphabet :: "string set"
  tape_alphabet :: "string set"
  initial_state :: string
  accept_states :: "string set"
  transitions :: "(string \<times> string, Transition) dict"
  tm_blank_symbol :: string
  name :: string

text \<open>\<open>TuringMachine.__init__\<close>: the object is built, then the three checks run in order.\<close>

definition init :: "string list \<Rightarrow> string list \<Rightarrow> string list \<Rightarrow> string \<Rightarrow> string list \<Rightarrow>
    (string \<times> string, Transition) dict \<Rightarrow> string \<Rightarrow> string \<Rightarrow> error + TuringMachine" where
  "init sts in_alph tape_alph initial accepts trans_dict blank nm =
     (let self = \<lparr>states = set sts, input_alphabet = set in_alph, tape_alphabet = set tape_alph,
                  initial_state = initial, accept_states = set accepts, transitions = trans_dict,
                  tm_blank_symbol = blank, name = nm\<rparr>
      in if initial_state self \<notin> states self then Inl (InvalidInitialState (initial_state self))
         else if \<not> accept_states self \<subseteq> states self then Inl AcceptStatesNotInStates
         else if tm_blank_symbol self \<notin> tape_alphabet self then Inl BlankNotInTapeAlphabet
         else Inr self)"

text \<open>\<open>_format_id\<close>: the loop over \<open>enumerate(symbols)\<close>, from index \<open>i\<close>.\<close>

fun format_parts :: "nat \<Rightarrow> int \<Rightarrow> string \<Rightarrow> string list \<Rightarrow> string list" where
  "format_parts i head_pos state [] = []"
| "format_parts i head_pos state (s # rest) =
     (if int i = head_pos then ''['' @ state @ '']'' @ s else s)
       # format_parts (Suc i) head_pos state rest"

definition format_id :: "Tape \<Rightarrow> string \<Rightarrow> string" where
  "format_id tape state =
     (case get_view tape of (symbols, head_pos) \<Rightarrow> concat (format_parts 0 head_pos state symbols))"

text \<open>The marker appended when the step limit stops the loop (\<open>0xED\<close> is i with acute).\<close>

definition step_limit_marker :: string where
  "step_limit_marker =
     ''>>> L'' @ [CHR 0xED] @ ''mite de pasos alcanzado, posible lazo infinito.''"

text \<open>
  The \<open>while True\<close> loop of \<open>run\<close>, on the loop variables \<open>tape\<close>, \<open>current_state\<close>,
  \<open>steps\<close> and \<open>ids\<close>. The loop need not end when \<open>max_steps\<close> is \<open>None\<close>: the
  result \<open>None\<close> is a run that never returns, \<open>Some (Inl e)\<close> is the exception of
  \<open>tape.move\<close> leaving the loop, \<open>Some (Inr _)\<close> the variables at the \<open>break\<close>.
\<close>

partial_function (option) run_loop ::
  "TuringMachine \<Rightarrow> int option \<Rightarrow> Tape \<Rightarrow> string \<Rightarrow> int \<Rightarrow> string list \<Rightarrow>
     (error + Tape \<times> string \<times> string list) option" where
  "run_loop tm max_steps tape current_state steps ids_acc =
     (case map_of (transitions tm) (current_state, read tape) of
        None \<Rightarrow> Some (Inr (tape, current_state, ids_acc))
      | Some transition \<Rightarrow>
          (case move (move_dir transition) (tape_write (write_symbol transition) tape) of
             (Some e, _) \<Rightarrow> Some (Inl e)
           | (None, tape') \<Rightarrow>
               (if max_steps \<noteq> None \<and> steps + 1 \<ge> the max_steps
                then Some (Inr (tape', next_state transition,
                       ids_acc @ [format_id tape' (next_state transition)] @ [step_limit_marker]))
                else run_loop tm max_steps tape' (next_state transition) (steps + 1)
                       (ids_acc @ [format_id tape' (next_state transition)]))))"

declare run_loop.simps [code]

definition run :: "TuringMachine \<Rightarrow> string \<Rightarrow> int option \<Rightarrow> (error + RunResult) option" where
  "run tm input_str max_steps =
     (let tape = load_input input_str \<lparr>blank_symbol = tm_blank_symbol tm, cells = [], head = 0\<rparr>
      in case run_loop tm max_steps tape (initial_state tm) 0 [format_id tape (initial_state tm)] of
           None \<Rightarrow> None
         | Some (Inl e) \<Rightarrow> Some (Inl e)
         | Some (Inr (tape', current_state, ids')) \<Rightarrow>
             Some (Inr \<lparr>input_string = input_str,
                        accepted = (current_state \<in> accept_states tm),
                        final_state = current_state,
                        final_tape = get_string tape',
                        ids = ids'\<rparr>))"

text \<open>
  The value of the key \<open>mt\<close> of the configuration that \<open>from_yaml_config\<close> reads.
  A \<open>read\<close> or \<open>write\<close> entry is a single symbol or a list of symbols
  (\<open>isinstance(_, list)\<close>). The keys the source reads without a default are
  fields here, so the \<open>KeyError\<close> of a missing key is outside the model;
  \<open>blank_symbol\<close> is optional. The fields carry the names of the keys, after
  \<open>rule_\<close> for a rule and \<open>conf_\<close> for the configuration.
\<close>

datatype field = Scalar string | ListOf "string list"

record rule =
  rule_state :: string
  rule_read :: field
  rule_write :: field
  rule_move :: string
  rule_next :: string

record mt_conf =
  conf_states :: "string list"
  conf_input_alphabet :: "string list"
  conf_tape_alphabet :: "string list"
  conf_initial_state :: string
  conf_accept_states :: "string list"
  conf_transitions :: "rule list"
  conf_blank_symbol :: "string option"

definition read_symbols :: "rule \<Rightarrow> string list" where
  "read_symbols t = (case rule_read t of ListOf xs \<Rightarrow> xs | Scalar x \<Rightarrow> [x])"

definition write_symbols :: "rule \<Rightarrow> string list" where
  "write_symbols t =
     (case rule_write t of
        ListOf xs \<Rightarrow> xs
      | Scalar x \<Rightarrow> replicate (length (read_symbols t)) x)"

text \<open>The inner loop, \<open>for r_sym, w_sym in zip(read_symbols, write_symbols)\<close>.\<close>

fun add_symbols :: "string list \<Rightarrow> rule \<Rightarrow> (string \<times> string) list \<Rightarrow>
    (string \<times> string, Transition) dict \<Rightarrow> error + (string \<times> string, Transition) dict" where
  "add_symbols tape_alph t [] trs = Inr trs"
| "add_symbols tape_alph t ((r_sym, w_sym) # rest) trs =
     (if r_sym \<notin> set tape_alph then Inl (ReadSymbolNotInAlphabet r_sym)
      else if w_sym \<notin> set tape_alph then Inl (WriteSymbolNotInAlphabet w_sym)
      else add_symbols tape_alph t rest
             (AList.update (rule_state t, r_sym)
                \<lparr>next_state = rule_next t, write_symbol = w_sym, move_dir = rule_move t\<rparr> trs))"

text \<open>The outer loop, \<open>for t in transitions_list\<close>.\<close>

fun add_rules :: "string list \<Rightarrow> rule list \<Rightarrow>
    (string \<times> string, Transition) dict \<Rightarrow> error + (string \<times> string, Transition) dict" where
  "add_rules tape_alph [] trs = Inr trs"
| "add_rules tape_alph (t # rest) trs =
     (if length (read_symbols t) \<noteq> length (write_symbols t)
      then Inl (InconsistentTransition (rule_state t))
      else case add_symbols tape_alph t (zip (read_symbols t) (write_symbols t)) trs of
             Inl e \<Rightarrow> Inl e
           | Inr trs' \<Rightarrow> add_rules tape_alph rest trs')"

definition from_yaml_config :: "mt_conf \<Rightarrow> error + TuringMachine" where
  "from_yaml_config mt =
     (let blank = (case conf_blank_symbol mt of None \<Rightarrow> ''B'' | Some b \<Rightarrow> b)
      in case add_rules (conf_tape_alphabet mt) (conf_transitions mt) [] of
           Inl e \<Rightarrow> Inl e
         | Inr trs \<Rightarrow>
             init (conf_states mt) (conf_input_alphabet mt) (conf_tape_alphabet mt)
               (conf_initial_state mt) (conf_accept_states mt) trs blank ''MT'')"

section \<open>The example machine of the specification\<close>

text \<open>
  States \<open>q0\<close> and \<open>qf\<close>, tape alphabet \<open>a\<close> and \<open>B\<close>, blank \<open>B\<close>, initial state
  \<open>q0\<close>, accepting state \<open>qf\<close> and the single transition from \<open>(q0, a)\<close> to
  \<open>(qf, a, S)\<close>.
\<close>

definition example_conf :: mt_conf where
  "example_conf =
     \<lparr>conf_states = [''q0'', ''qf''], conf_input_alphabet = [''a''],
      conf_tape_alphabet = [''a'', ''B''], conf_initial_state = ''q0'',
      conf_accept_states = [''qf''],
      conf_transitions =
        [\<lparr>rule_state = ''q0'', rule_read = Scalar ''a'', rule_write = Scalar ''a'',
          rule_move = ''S'', rule_next = ''qf''\<rparr>],
      conf_blank_symbol = None\<rparr>"

definition example_tm :: TuringMachine where
  "example_tm =
     \<lparr>states = {''q0'', ''qf''}, input_alphabet = {''a''}, tape_alphabet = {''a'', ''B''},
      initial_state = ''q0'', accept_states = {''qf''},
      transitions =
        [((''q0'', ''a''), \<lparr>next_state = ''qf'', write_symbol = ''a'', move_dir = ''S''\<rparr>)],
      tm_blank_symbol = ''B'', name = ''MT''\<rparr>"

section \<open>Configurations for the builder\<close>

text \<open>
  Two rules on the key \<open>(q0, a)\<close>: the first keeps \<open>a\<close> and moves right, the second
  reads a list of symbols with a single symbol to write, and comes later.
\<close>

definition overlap_rule_1 :: rule where
  "overlap_rule_1 =
     \<lparr>rule_state = ''q0'', rule_read = Scalar ''a'', rule_write = Scalar ''a'',
      rule_move = ''R'', rule_next = ''q0''\<rparr>"

definition overlap_rule_2 :: rule where
  "overlap_rule_2 =
     \<lparr>rule_state = ''q0'', rule_read = ListOf [''a'', ''B''], rule_write = Scalar ''B'',
      rule_move = ''L'', rule_next = ''qf''\<rparr>"

definition overlap_conf :: mt_conf where
  "overlap_conf = example_conf\<lparr>conf_transitions := [overlap_rule_1, overlap_rule_2]\<rparr>"

definition overlap_tm :: TuringMachine where
  "overlap_tm =
     \<lparr>states = {''q0'', ''qf''}, input_alphabet = {''a''}, tape_alphabet = {''a'', ''B''},
      initial_state = ''q0'', accept_states = {''qf''},
      transitions =
        [((''q0'', ''a''), \<lparr>next_state = ''qf'', write_symbol = ''B'', move_dir = ''L''\<rparr>),
         ((''q0'', ''B''), \<lparr>next_state = ''qf'', write_symbol = ''B'', move_dir = ''L''\<rparr>)],
      tm_blank_symbol = ''B'', name = ''MT''\<rparr>"

text \<open>A rule with two symbols to read and a list of one symbol to write.\<close>

definition mismatch_rule :: rule where
  "mismatch_rule =
     \<lparr>rule_state = ''q0'', rule_read = ListOf [''a'', ''B''], rule_write = ListOf [''a''],
      rule_move = ''R'', rule_next = ''qf''\<rparr>"

definition mismatch_conf :: mt_conf where
  "mismatch_conf = example_conf\<lparr>conf_transitions := [mismatch_rule]\<rparr>"

text \<open>A rule that writes \<open>X\<close>, which is not in the tape alphabet.\<close>

definition bad_symbol_rule :: rule where
  "bad_symbol_rule =
     \<lparr>rule_state = ''q0'', rule_read = Scalar ''a'', rule_write = Scalar ''X'',
      rule_move = ''R'', rule_next = ''qf''\<rparr>"

definition bad_symbol_conf :: mt_conf where
  "bad_symbol_conf = example_conf\<lparr>conf_transitions := [bad_symbol_rule]\<rparr>"

section \<open>Evaluating the model\<close>

lemmas tape_eval = load_input_def read_def tape_write_def move_def upper_def upper_char_def
  used_indices_def get_view_def get_string_def format_id_def dict_get_def dict_keys_def
  char_of_eq_iff

lemma example_tm_built: "from_yaml_config example_conf = Inr example_tm"
  by (simp add: from_yaml_config_def example_conf_def example_tm_def init_def
      read_symbols_def write_symbols_def Let_def insert_commute)

lemma run_example_empty:
  "run example_tm '''' None =
     Some (Inr \<lparr>input_string = '''', accepted = False, final_state = ''q0'',
                 final_tape = ''B'', ids = [''[q0]B'']\<rparr>)"
  unfolding run_def
  by (subst run_loop.simps) (simp add: example_tm_def tape_eval)

lemma run_example_a:
  "run example_tm ''a'' None =
     Some (Inr \<lparr>input_string = ''a'', accepted = True, final_state = ''qf'',
                 final_tape = ''a'', ids = [''[q0]a'', ''[qf]a'']\<rparr>)"
  unfolding run_def
  apply (subst run_loop.simps)
  apply (simp add: example_tm_def tape_eval)
  apply (subst run_loop.simps)
  apply (simp add: example_tm_def tape_eval)
  done

section \<open>The step limit\<close>

text \<open>
  The limit is tested only after a transition has been applied and counted, so the
  first pass through the loop is the same for every limit up to 1.
\<close>

lemma run_loop_first_step:
  "m \<le> 1 \<Longrightarrow> run_loop tm (Some m) tape st 0 acc =
     (case map_of (transitions tm) (st, read tape) of
        None \<Rightarrow> Some (Inr (tape, st, acc))
      | Some tr \<Rightarrow>
          (case move (move_dir tr) (tape_write (write_symbol tr) tape) of
             (Some e, _) \<Rightarrow> Some (Inl e)
           | (None, tape') \<Rightarrow>
               Some (Inr (tape', next_state tr,
                 acc @ [format_id tape' (next_state tr)] @ [step_limit_marker]))))"
  by (subst run_loop.simps) (simp split: option.splits prod.splits)

lemma run_limit_0_eq_limit_1: "run tm s (Some 0) = run tm s (Some 1)"
  by (simp add: run_def run_loop_first_step)

text \<open>With a limit the loop always ends: it returns a result or raises.\<close>

lemma run_loop_limit_returns: "run_loop tm (Some n) tape st steps acc \<noteq> None"
proof (induction "nat (n - steps)" arbitrary: tape st steps acc)
  case 0
  then have "n \<le> steps + 1" by simp
  then show ?case
    by (subst run_loop.simps) (simp split: option.splits prod.splits)
next
  case (Suc k)
  then have "k = nat (n - (steps + 1))" by simp
  from Suc.hyps(1) [OF this] show ?case
    by (subst run_loop.simps) (simp split: option.splits prod.splits)
qed

lemma run_limit_returns: "run tm s (Some n) \<noteq> None"
  using run_loop_limit_returns
  by (simp add: run_def Let_def split: option.splits sum.splits prod.splits)

lemma run_example_a_limit_1:
  "run example_tm ''a'' (Some 1) =
     Some (Inr \<lparr>input_string = ''a'', accepted = True, final_state = ''qf'',
                 final_tape = ''a'', ids = [''[q0]a'', ''[qf]a'', step_limit_marker]\<rparr>)"
  by (simp add: run_def run_loop_first_step example_tm_def tape_eval)

lemma run_example_empty_limit_0:
  "run example_tm '''' (Some 0) =
     Some (Inr \<lparr>input_string = '''', accepted = False, final_state = ''q0'',
                 final_tape = ''B'', ids = [''[q0]B'']\<rparr>)"
  by (simp add: run_def run_loop_first_step example_tm_def tape_eval)

text \<open>
  Claim C1. The claim: with \<open>max_steps = 0\<close> no transition is applied, the ids are the
  initial description followed by the step-limit marker, and the final state is the
  initial state. The code at the example machine, input \<open>a\<close> and \<open>max_steps = 0\<close>:
  the transition on \<open>(q0, a)\<close> is applied before the limit is looked at, so the run
  ends in \<open>qf\<close> with three ids, as it does with \<open>max_steps = 1\<close>.
\<close>

theorem run_max_steps_0_applies_a_transition:
  "run example_tm ''a'' (Some 0) =
     Some (Inr \<lparr>input_string = ''a'', accepted = True, final_state = ''qf'',
                 final_tape = ''a'', ids = [''[q0]a'', ''[qf]a'', step_limit_marker]\<rparr>)"
  by (simp add: run_def run_loop_first_step example_tm_def tape_eval)

section \<open>Writing the blank symbol\<close>

lemma read_after_write_blank: "read (tape_write (blank_symbol t) t) = blank_symbol t"
  by (simp add: read_def tape_write_def dict_get_def dict_keys_def AList.update_conv'
      AList.delete_conv')

lemma write_blank_on_stored_cell:
  "head t \<in> set (dict_keys (cells t)) \<Longrightarrow>
   head t \<notin> set (dict_keys (cells (tape_write (blank_symbol t) t)))"
  by (simp add: tape_write_def dict_keys_def AList.delete_notin_dom)

text \<open>
  Claim C2. The claim: \<open>write(blank_symbol)\<close> leaves no stored entry at the head
  position, so that no entry of the mapping holds the blank symbol after a write.
  The code on the empty tape with blank \<open>B\<close> and the head at 0: the head position is
  not a key, the first branch of \<open>write\<close> is not taken, and the other branch stores
  \<open>B\<close> at position 0.
\<close>

theorem write_blank_on_unset_cell_stores_blank:
  "cells (tape_write ''B'' \<lparr>blank_symbol = ''B'', cells = [], head = 0\<rparr>) = [(0, ''B'')]"
  by (simp add: tape_write_def dict_keys_def)

section \<open>The view of the tape and the instantaneous description\<close>

lemma used_indices_bounds:
  "fst (used_indices t) \<le> head t \<and> head t \<le> snd (used_indices t)"
  by (simp add: used_indices_def Let_def)

lemma get_view_head_index:
  "0 \<le> snd (get_view t) \<and> nat (snd (get_view t)) < length (fst (get_view t))"
proof -
  obtain lo hi where u: "used_indices t = (lo, hi)" by (cases "used_indices t")
  with used_indices_bounds [of t] have "lo \<le> head t" "head t \<le> hi" by simp_all
  then show ?thesis by (simp add: get_view_def u)
qed

lemma format_parts_past_head: "hp < int j \<Longrightarrow> format_parts j hp st xs = xs"
  by (induction xs arbitrary: j) auto

lemma format_parts_split:
  "int i \<le> hp \<Longrightarrow> nat hp - i < length syms \<Longrightarrow>
   concat (format_parts i hp st syms) =
     concat (take (nat hp - i) syms) @ ''['' @ st @ '']'' @ concat (drop (nat hp - i) syms)"
proof (induction syms arbitrary: i)
  case Nil
  then show ?case by simp
next
  case (Cons s rest)
  show ?case
  proof (cases "int i = hp")
    case True
    then have "nat hp - i = 0" by simp
    moreover have "format_parts (Suc i) hp st rest = rest"
      using True by (intro format_parts_past_head) simp
    ultimately show ?thesis using True by simp
  next
    case False
    with Cons.prems have lt: "int (Suc i) \<le> hp" by simp
    then have d: "nat hp - i = Suc (nat hp - Suc i)" by linarith
    with Cons.prems have "nat hp - Suc i < length rest" by simp
    from Cons.IH [OF lt this] show ?thesis using False d by simp
  qed
qed

lemma format_id_shape:
  "format_id tape st =
     concat (take (nat (snd (get_view tape))) (fst (get_view tape))) @ ''['' @ st @ '']'' @
     concat (drop (nat (snd (get_view tape))) (fst (get_view tape)))"
proof -
  obtain syms hp where v: "get_view tape = (syms, hp)" by (cases "get_view tape")
  with get_view_head_index [of tape] have "0 \<le> hp" "nat hp < length syms" by simp_all
  then show ?thesis
    using format_parts_split [of 0 hp syms st] by (simp add: format_id_def v)
qed

section \<open>The runs of the example machine\<close>

text \<open>
  Claim C3, as the code has it. On the empty input the example machine halts at once,
  since no transition is stored for \<open>(q0, B)\<close>, with the single id \<open>[q0]B\<close>, the
  final state \<open>q0\<close> and \<open>accepted = false\<close>. The final tape is \<open>B\<close>: the view of
  a tape with no stored cell is the one cell under the head, and \<open>get_string\<close> joins
  the view.
\<close>

theorem run_example_empty_input:
  "run example_tm '''' None =
     Some (Inr \<lparr>input_string = '''', accepted = False, final_state = ''q0'',
                 final_tape = ''B'', ids = [''[q0]B'']\<rparr>)"
  by (rule run_example_empty)

text \<open>The result that claim C3 states, with the empty final tape, is not what the run returns.\<close>

theorem run_example_empty_input_final_tape_not_empty:
  "run example_tm '''' None \<noteq>
     Some (Inr \<lparr>input_string = '''', accepted = False, final_state = ''q0'',
                 final_tape = '''', ids = [''[q0]B'']\<rparr>)"
  by (simp add: run_example_empty)

text \<open>
  Claim C6. The example machine on the input \<open>a\<close> returns the ids \<open>[q0]a\<close> and
  \<open>[qf]a\<close>, the final state \<open>qf\<close>, \<open>accepted = true\<close> and the final tape \<open>a\<close>.
  Every instantaneous description is the view's symbols joined with no separator,
  with the state name in brackets put just before the symbol at the head index, and
  the head index lies inside the view.
\<close>

theorem run_example_input_a:
  "run example_tm ''a'' None =
     Some (Inr \<lparr>input_string = ''a'', accepted = True, final_state = ''qf'',
                 final_tape = ''a'', ids = [''[q0]a'', ''[qf]a'']\<rparr>) \<and>
   format_id tape st =
     concat (take (nat (snd (get_view tape))) (fst (get_view tape))) @ ''['' @ st @ '']'' @
     concat (drop (nat (snd (get_view tape))) (fst (get_view tape))) \<and>
   0 \<le> snd (get_view tape) \<and> nat (snd (get_view tape)) < length (fst (get_view tape))"
  using run_example_a format_id_shape [of tape st] get_view_head_index [of tape] by simp

section \<open>Acceptance\<close>

text \<open>
  Claim C7. Whenever a run returns a result, its \<open>accepted\<close> flag is the membership
  of its final state in the accepting states of the machine, whatever the limit and
  however the loop was left.
\<close>

theorem accepted_iff_final_state_accepting:
  "run tm s max_steps = Some (Inr r) \<Longrightarrow> accepted r = (final_state r \<in> accept_states tm)"
  by (auto simp: run_def Let_def split: option.splits sum.splits prod.splits)

text \<open>
  The theorem at a run left because no transition matches (rejecting), and at a run
  left by the step limit (accepting).
\<close>

theorem accepted_iff_final_state_accepting_witness:
  "run example_tm '''' None =
     Some (Inr \<lparr>input_string = '''', accepted = False, final_state = ''q0'',
                 final_tape = ''B'', ids = [''[q0]B'']\<rparr>) \<and>
   ''q0'' \<notin> accept_states example_tm \<and>
   run example_tm ''a'' (Some 1) =
     Some (Inr \<lparr>input_string = ''a'', accepted = True, final_state = ''qf'',
                 final_tape = ''a'', ids = [''[q0]a'', ''[qf]a'', step_limit_marker]\<rparr>) \<and>
   ''qf'' \<in> accept_states example_tm"
  using accepted_iff_final_state_accepting [OF run_example_empty]
    accepted_iff_final_state_accepting [OF run_example_a_limit_1]
    run_example_empty run_example_a_limit_1
  by simp

section \<open>Loading an input and reading the tape back\<close>

lemma load_cells_keys:
  "fst ` set (load_cells i s cs) = fst ` set cs \<union> {i ..< i + int (length s)}"
proof (induction s arbitrary: i cs)
  case Nil
  then show ?case by simp
next
  case (Cons ch rest)
  have "{i ..< i + int (length (ch # rest))} = insert i {i + 1 ..< i + 1 + int (length rest)}"
    by auto
  then show ?case by (simp add: Cons.IH AList.dom_update)
qed

lemma load_cells_lookup:
  "map_of (load_cells i s cs) k =
     (if i \<le> k \<and> k < i + int (length s) then Some [s ! nat (k - i)] else map_of cs k)"
proof (induction s arbitrary: i cs k)
  case Nil
  then show ?case by auto
next
  case (Cons ch rest)
  show ?case
  proof (cases "k = i")
    case True
    then show ?thesis by (simp add: Cons.IH AList.update_conv')
  next
    case False
    have "(ch # rest) ! nat (k - i) = rest ! nat (k - (i + 1))" if "i \<le> k"
    proof -
      from that False have "nat (k - i) = Suc (nat (k - (i + 1)))" by linarith
      then show ?thesis by simp
    qed
    with False show ?thesis by (auto simp: Cons.IH AList.update_conv')
  qed
qed

lemma load_cells_empty_iff: "load_cells 0 s [] = [] \<longleftrightarrow> s = []"
proof -
  have "fst ` set (load_cells 0 s []) = {} \<longleftrightarrow> s = []"
    by (simp add: load_cells_keys)
  then show ?thesis by auto
qed

lemma view_of_loaded:
  assumes "s \<noteq> []"
  shows "get_view (load_input s t) = (map (\<lambda>c. [c]) s, 0)"
proof -
  let ?n = "int (length s)"
  let ?sym = "\<lambda>i. dict_get (load_cells 0 s []) i (blank_symbol t)"
  have pos: "0 < ?n" using assms by simp
  have keys: "insert 0 (set (dict_keys (load_cells 0 s []))) = {0 ..< ?n}"
    using pos by (auto simp: dict_keys_def load_cells_keys)
  have mn: "Min {0 ..< ?n} = 0"
    using pos by (intro Min_eqI) auto
  have mx: "Max {0 ..< ?n} = ?n - 1"
    using pos by (intro Max_eqI) auto
  have u: "used_indices (load_input s t) = (0, ?n - 1)"
    using assms
    by (simp add: used_indices_def load_input_def load_cells_empty_iff keys mn mx Let_def)
  have "map ?sym [0 .. ?n - 1] = map (\<lambda>c. [c]) s"
  proof (rule nth_equalityI)
    show "length (map ?sym [0 .. ?n - 1]) = length (map (\<lambda>c. [c]) s)"
      by simp
  next
    fix j
    assume "j < length (map ?sym [0 .. ?n - 1])"
    then have j: "j < length s" by simp
    then have "[0 .. ?n - 1] ! j = int j" by (simp add: nth_upto)
    with j show "map ?sym [0 .. ?n - 1] ! j = map (\<lambda>c. [c]) s ! j"
      by (simp add: dict_get_def load_cells_lookup)
  qed
  moreover have "cells (load_input s t) = load_cells 0 s []" "head (load_input s t) = 0"
    "blank_symbol (load_input s t) = blank_symbol t"
    by (simp_all add: load_input_def)
  ultimately show ?thesis by (simp add: get_view_def u)
qed

lemma concat_singletons: "concat (map (\<lambda>c. [c]) s) = s"
  by (induction s) auto

text \<open>
  Claim C4, as the code has it. For every string \<open>s\<close> that is not empty,
  \<open>load_input(s)\<close> followed by \<open>get_string()\<close> returns exactly \<open>s\<close>, blank
  characters at either end included, whatever the tape held before. For the empty
  string it returns the blank symbol: the view is then the one cell under the head.
\<close>

theorem load_input_get_string:
  "get_string (load_input s t) = (if s = [] then blank_symbol t else s)"
proof (cases "s = []")
  case True
  then show ?thesis
    by (simp add: get_string_def get_view_def used_indices_def load_input_def dict_get_def)
next
  case False
  then show ?thesis by (simp add: get_string_def view_of_loaded concat_singletons)
qed

text \<open>The theorem on an input with the blank at both ends, over a tape already in use.\<close>

theorem load_input_get_string_witness:
  "get_string (load_input ''BaB'' \<lparr>blank_symbol = ''B'', cells = [(5, ''x'')], head = 7\<rparr>)
     = ''BaB''"
  using load_input_get_string
    [of "''BaB''" "\<lparr>blank_symbol = ''B'', cells = [(5, ''x'')], head = 7\<rparr>"]
  by simp

text \<open>Claim C4 as stated fails at the empty string.\<close>

theorem load_input_get_string_empty_counterexample:
  "get_string (load_input '''' \<lparr>blank_symbol = ''B'', cells = [], head = 0\<rparr>) \<noteq> ''''"
  by (simp add: tape_eval)

section \<open>Moving the head\<close>

text \<open>
  Over the 8-bit characters of the model, the strings that \<open>upper\<close> sends to a
  one-letter string of an upper-case ASCII letter are that letter and its lower case.
\<close>

lemma upper_char_ascii_upper:
  assumes "(65::nat) \<le> of_char u" "of_char u \<le> (90::nat)"
  shows "upper_char c = u \<longleftrightarrow> c = u \<or> c = char_of (of_char u + (32::nat))"
proof (cases "(97::nat) \<le> of_char c \<and> of_char c \<le> (122::nat)")
  case True
  then have uc: "upper_char c = char_of (of_char c - (32::nat))"
    by (simp add: upper_char_def)
  have "c \<noteq> u" using True assms by auto
  moreover have "char_of (of_char c - (32::nat)) = u \<longleftrightarrow> c = char_of (of_char u + (32::nat))"
  proof
    assume "char_of (of_char c - (32::nat)) = u"
    then have "(of_char c - (32::nat)) mod 256 = of_char u"
      by (metis of_char_of)
    moreover have "of_char c - (32::nat) < 256"
      using True by linarith
    then have "(of_char c - (32::nat)) mod 256 = of_char c - (32::nat)"
      by (rule mod_less)
    ultimately have "of_char c = of_char u + (32::nat)" using True by linarith
    then show "c = char_of (of_char u + (32::nat))"
      by (metis char_of_char)
  next
    assume "c = char_of (of_char u + (32::nat))"
    then have "of_char c = (of_char u + (32::nat)) mod 256" by simp
    then have "of_char c = of_char u + (32::nat)" using assms by simp
    then show "char_of (of_char c - (32::nat)) = u" by simp
  qed
  ultimately show ?thesis using uc by simp
next
  case False
  then have uc: "upper_char c = c" by (auto simp: upper_char_def)
  have "c \<noteq> char_of (of_char u + (32::nat))"
  proof
    assume "c = char_of (of_char u + (32::nat))"
    then have "of_char c = (of_char u + (32::nat)) mod 256" by simp
    then have "of_char c = of_char u + (32::nat)" using assms by simp
    then show False using False assms by simp
  qed
  then show ?thesis using uc by auto
qed

lemma upper_eq_single:
  assumes "(65::nat) \<le> of_char u" "of_char u \<le> (90::nat)"
  shows "upper d = [u] \<longleftrightarrow> d = [u] \<or> d = [char_of (of_char u + (32::nat))]"
proof (cases d)
  case Nil
  then show ?thesis by (simp add: upper_def)
next
  case (Cons c rest)
  then show ?thesis
    using upper_char_ascii_upper [OF assms, of c] by (auto simp: upper_def)
qed

lemma lower_chars:
  "char_of (108::nat) = CHR ''l''" "char_of (114::nat) = CHR ''r''"
  "char_of (115::nat) = CHR ''s''"
  by (simp_all add: char_of_eq_iff)

lemma upper_L: "upper d = ''L'' \<longleftrightarrow> d = ''L'' \<or> d = ''l''"
  using upper_eq_single [of "CHR ''L''" d] by (simp add: lower_chars)

lemma upper_R: "upper d = ''R'' \<longleftrightarrow> d = ''R'' \<or> d = ''r''"
  using upper_eq_single [of "CHR ''R''" d] by (simp add: lower_chars)

lemma upper_S: "upper d = ''S'' \<longleftrightarrow> d = ''S'' \<or> d = ''s''"
  using upper_eq_single [of "CHR ''S''" d] by (simp add: lower_chars)

text \<open>
  Claim C5, as the code has it. \<open>move\<close> upper-cases the direction before it compares
  it: \<open>L\<close> and \<open>l\<close> take 1 from the head, \<open>R\<close> and \<open>r\<close> add 1 to it, \<open>S\<close> and \<open>s\<close>
  leave it as it is, and a direction whose upper case is none of \<open>L\<close>, \<open>R\<close>, \<open>S\<close>
  raises the invalid-direction error and leaves the tape, and so the head, unchanged.
\<close>

theorem move_directions:
  "(d \<in> {''L'', ''l''} \<longrightarrow> move d t = (None, t\<lparr>head := head t - 1\<rparr>)) \<and>
   (d \<in> {''R'', ''r''} \<longrightarrow> move d t = (None, t\<lparr>head := head t + 1\<rparr>)) \<and>
   (d \<in> {''S'', ''s''} \<longrightarrow> move d t = (None, t)) \<and>
   (upper d \<notin> {''L'', ''R'', ''S''} \<longrightarrow> move d t = (Some (InvalidDirection d), t))"
proof -
  have "upper d = ''L'' \<Longrightarrow> move d t = (None, t\<lparr>head := head t - 1\<rparr>)"
    by (simp add: move_def)
  moreover have "upper d = ''R'' \<Longrightarrow> move d t = (None, t\<lparr>head := head t + 1\<rparr>)"
    by (simp add: move_def)
  moreover have "upper d = ''S'' \<Longrightarrow> move d t = (None, t)"
    by (simp add: move_def)
  moreover have "upper d \<noteq> ''L'' \<Longrightarrow> upper d \<noteq> ''R'' \<Longrightarrow> upper d \<noteq> ''S'' \<Longrightarrow>
      move d t = (Some (InvalidDirection d), t)"
    by (simp add: move_def)
  ultimately show ?thesis
    using upper_L [of d] upper_R [of d] upper_S [of d] by blast
qed

text \<open>The theorem at \<open>L\<close>, \<open>r\<close>, \<open>s\<close> and at the invalid direction \<open>X\<close>, head at 4.\<close>

theorem move_directions_witness:
  "move ''L'' \<lparr>blank_symbol = ''B'', cells = [], head = 4\<rparr>
     = (None, \<lparr>blank_symbol = ''B'', cells = [], head = 3\<rparr>) \<and>
   move ''r'' \<lparr>blank_symbol = ''B'', cells = [], head = 4\<rparr>
     = (None, \<lparr>blank_symbol = ''B'', cells = [], head = 5\<rparr>) \<and>
   move ''s'' \<lparr>blank_symbol = ''B'', cells = [], head = 4\<rparr>
     = (None, \<lparr>blank_symbol = ''B'', cells = [], head = 4\<rparr>) \<and>
   upper ''X'' \<notin> {''L'', ''R'', ''S''} \<and>
   move ''X'' \<lparr>blank_symbol = ''B'', cells = [], head = 4\<rparr>
     = (Some (InvalidDirection ''X''), \<lparr>blank_symbol = ''B'', cells = [], head = 4\<rparr>)"
  using move_directions [of "''L''" "\<lparr>blank_symbol = ''B'', cells = [], head = 4\<rparr>"]
    move_directions [of "''r''" "\<lparr>blank_symbol = ''B'', cells = [], head = 4\<rparr>"]
    move_directions [of "''s''" "\<lparr>blank_symbol = ''B'', cells = [], head = 4\<rparr>"]
    move_directions [of "''X''" "\<lparr>blank_symbol = ''B'', cells = [], head = 4\<rparr>"]
  by (simp add: upper_def upper_char_def)

text \<open>
  Claim C5 as stated fails at the direction \<open>l\<close>: it is none of \<open>L\<close>, \<open>R\<close>, \<open>S\<close>,
  and \<open>move\<close> does not raise but moves the head to the left.
\<close>

theorem move_lower_case_l_counterexample:
  "''l'' \<notin> {''L'', ''R'', ''S''} \<and>
   move ''l'' \<lparr>blank_symbol = ''B'', cells = [], head = 0\<rparr>
     = (None, \<lparr>blank_symbol = ''B'', cells = [], head = - 1\<rparr>)"
  by (simp add: move_def upper_def upper_char_def char_of_eq_iff)

section \<open>Validation at construction\<close>

text \<open>
  Claim C9. The constructor returns an error, and no machine, whenever the initial
  state is not among the states, the accepting states are not all among the states,
  or the blank symbol is not in the tape alphabet. A machine that the constructor or
  the builder returns satisfies the three conditions; \<open>run\<close> takes such a machine.
\<close>

theorem init_validates:
  "(initial \<notin> set sts \<or> \<not> set accepts \<subseteq> set sts \<or> blank \<notin> set tape_alph \<longrightarrow>
      init sts in_alph tape_alph initial accepts trs blank nm \<in>
        {Inl (InvalidInitialState initial), Inl AcceptStatesNotInStates,
         Inl BlankNotInTapeAlphabet}) \<and>
   (init sts in_alph tape_alph initial accepts trs blank nm = Inr tm \<longrightarrow>
      initial_state tm \<in> states tm \<and> accept_states tm \<subseteq> states tm \<and>
      tm_blank_symbol tm \<in> tape_alphabet tm) \<and>
   (from_yaml_config mt = Inr tm' \<longrightarrow>
      initial_state tm' \<in> states tm' \<and> accept_states tm' \<subseteq> states tm' \<and>
      tm_blank_symbol tm' \<in> tape_alphabet tm')"
  by (auto simp: init_def from_yaml_config_def Let_def split: if_splits sum.splits)

text \<open>
  The theorem at three definitions that each break one condition, and at the example
  machine, which the builder returns.
\<close>

theorem init_validates_witness:
  "init [''q0''] [] [''B''] ''q1'' [] [] ''B'' ''MT'' = Inl (InvalidInitialState ''q1'') \<and>
   init [''q0''] [] [''B''] ''q0'' [''qf''] [] ''B'' ''MT'' = Inl AcceptStatesNotInStates \<and>
   init [''q0''] [] [''a''] ''q0'' [] [] ''B'' ''MT'' = Inl BlankNotInTapeAlphabet \<and>
   from_yaml_config example_conf = Inr example_tm \<and>
   initial_state example_tm \<in> states example_tm \<and>
   accept_states example_tm \<subseteq> states example_tm \<and>
   tm_blank_symbol example_tm \<in> tape_alphabet example_tm"
proof -
  have a: "init [''q0''] [] [''B''] ''q1'' [] [] ''B'' ''MT'' = Inl (InvalidInitialState ''q1'')"
    by (simp add: init_def)
  have b: "init [''q0''] [] [''B''] ''q0'' [''qf''] [] ''B'' ''MT'' = Inl AcceptStatesNotInStates"
    by (simp add: init_def)
  have c: "init [''q0''] [] [''a''] ''q0'' [] [] ''B'' ''MT'' = Inl BlankNotInTapeAlphabet"
    by (simp add: init_def)
  from init_validates [where mt = example_conf and tm' = example_tm] example_tm_built
  have "initial_state example_tm \<in> states example_tm \<and>
      accept_states example_tm \<subseteq> states example_tm \<and>
      tm_blank_symbol example_tm \<in> tape_alphabet example_tm"
    by blast
  with a b c example_tm_built show ?thesis by simp
qed

section \<open>The builder\<close>

lemma add_symbols_ok:
  "(\<exists>trs'. add_symbols alph t ps trs = Inr trs') \<longleftrightarrow>
     fst ` set ps \<subseteq> set alph \<and> snd ` set ps \<subseteq> set alph"
  by (induction alph t ps trs rule: add_symbols.induct) auto

lemma add_symbols_lookup:
  "add_symbols alph t ps trs = Inr trs' \<Longrightarrow>
   map_of trs' k =
     (case map_of (rev ps) (snd k) of
        Some w \<Rightarrow> if fst k = rule_state t
          then Some \<lparr>next_state = rule_next t, write_symbol = w, move_dir = rule_move t\<rparr>
          else map_of trs k
      | None \<Rightarrow> map_of trs k)"
proof (induction alph t ps trs arbitrary: trs' rule: add_symbols.induct)
  case (1 tape_alph t trs)
  then show ?case by simp
next
  case (2 tape_alph t r_sym w_sym rest trs)
  then show ?case
    by (cases k) (auto simp: AList.update_conv' map_add_def split: if_splits option.splits)
qed

lemma add_symbols_keys:
  "add_symbols alph t ps trs = Inr trs' \<Longrightarrow>
   fst ` set trs' = fst ` set trs \<union> (\<lambda>r. (rule_state t, r)) ` fst ` set ps"
proof (induction alph t ps trs arbitrary: trs' rule: add_symbols.induct)
  case (1 tape_alph t trs)
  then show ?case by simp
next
  case (2 tape_alph t r_sym w_sym rest trs)
  then show ?case
    by (auto simp: AList.dom_update split: if_splits)
qed

lemma add_symbols_distinct:
  "add_symbols alph t ps trs = Inr trs' \<Longrightarrow> distinct (map fst trs) \<Longrightarrow>
   distinct (map fst trs')"
proof (induction alph t ps trs arbitrary: trs' rule: add_symbols.induct)
  case (1 tape_alph t trs)
  then show ?case by simp
next
  case (2 tape_alph t r_sym w_sym rest trs)
  then show ?case
    by (auto simp: AList.distinct_update split: if_splits)
qed

lemma zip_sides:
  "length rs = length ws \<Longrightarrow> fst ` set (zip rs ws) = set rs \<and> snd ` set (zip rs ws) = set ws"
  by (metis map_fst_zip map_snd_zip set_map)

lemma add_rules_ok:
  "(\<exists>trs'. add_rules alph rules trs = Inr trs') \<longleftrightarrow>
     (\<forall>t\<in>set rules. length (read_symbols t) = length (write_symbols t) \<and>
        set (read_symbols t) \<union> set (write_symbols t) \<subseteq> set alph)"
proof (induction alph rules trs rule: add_rules.induct)
  case (1 tape_alph trs)
  then show ?case by simp
next
  case (2 tape_alph t rest trs)
  show ?case
  proof (cases "length (read_symbols t) = length (write_symbols t)")
    case False
    then show ?thesis by simp
  next
    case len: True
    show ?thesis
    proof (cases "add_symbols tape_alph t (zip (read_symbols t) (write_symbols t)) trs")
      case (Inl e)
      with add_symbols_ok [of tape_alph t "zip (read_symbols t) (write_symbols t)" trs]
        zip_sides [OF len]
      show ?thesis using len by auto
    next
      case (Inr trs1)
      with add_symbols_ok [of tape_alph t "zip (read_symbols t) (write_symbols t)" trs]
        zip_sides [OF len] "2.IH" [OF _ Inr]
      show ?thesis using len by auto
    qed
  qed
qed

lemma add_rules_append:
  "add_rules alph (pre @ rest) trs =
     (case add_rules alph pre trs of Inl e \<Rightarrow> Inl e | Inr trs1 \<Rightarrow> add_rules alph rest trs1)"
  by (induction alph pre trs rule: add_rules.induct) (auto split: sum.splits)

lemma add_rules_untouched:
  "add_rules alph rules trs = Inr trs' \<Longrightarrow>
   \<forall>t\<in>set rules. rule_state t = fst k \<longrightarrow> snd k \<notin> set (read_symbols t) \<Longrightarrow>
   map_of trs' k = map_of trs k"
proof (induction alph rules trs arbitrary: trs' rule: add_rules.induct)
  case (1 tape_alph trs)
  then show ?case by simp
next
  case (2 tape_alph t rest trs)
  from "2.prems"(1) have len: "length (read_symbols t) = length (write_symbols t)"
    by (auto split: if_splits)
  with "2.prems"(1) obtain trs1 where
    s: "add_symbols tape_alph t (zip (read_symbols t) (write_symbols t)) trs = Inr trs1"
    and r: "add_rules tape_alph rest trs1 = Inr trs'"
    by (auto split: sum.splits)
  have "map_of trs1 k = map_of trs k"
  proof (cases "rule_state t = fst k")
    case True
    with "2.prems"(2) have "snd k \<notin> set (read_symbols t)" by simp
    then have "snd k \<notin> fst ` set (rev (zip (read_symbols t) (write_symbols t)))"
      using zip_sides [OF len] by simp
    then have "map_of (rev (zip (read_symbols t) (write_symbols t))) (snd k) = None"
      by (simp add: map_of_eq_None_iff)
    then show ?thesis using add_symbols_lookup [OF s, of k] by simp
  next
    case False
    then show ?thesis using add_symbols_lookup [OF s, of k] by (auto split: option.splits)
  qed
  moreover have "map_of trs' k = map_of trs1 k"
    using "2.IH" [OF _ s r] len "2.prems"(2) by simp
  ultimately show ?case by simp
qed

lemma add_rules_keys:
  "add_rules alph rules trs = Inr trs' \<Longrightarrow>
   fst ` set trs' =
     fst ` set trs \<union> {(rule_state t, r) | t r. t \<in> set rules \<and> r \<in> set (read_symbols t)}"
proof (induction alph rules trs arbitrary: trs' rule: add_rules.induct)
  case (1 tape_alph trs)
  then show ?case by simp
next
  case (2 tape_alph t rest trs)
  from "2.prems"(1) have len: "length (read_symbols t) = length (write_symbols t)"
    by (auto split: if_splits)
  with "2.prems"(1) obtain trs1 where
    s: "add_symbols tape_alph t (zip (read_symbols t) (write_symbols t)) trs = Inr trs1"
    and r: "add_rules tape_alph rest trs1 = Inr trs'"
    by (auto split: sum.splits)
  have "fst ` set trs1 = fst ` set trs \<union> (\<lambda>r. (rule_state t, r)) ` set (read_symbols t)"
    using add_symbols_keys [OF s] zip_sides [OF len] by simp
  moreover have "fst ` set trs' = fst ` set trs1 \<union>
      {(rule_state t, r) | t r. t \<in> set rest \<and> r \<in> set (read_symbols t)}"
    using "2.IH" [OF _ s r] len by simp
  ultimately show ?case by auto
qed

lemma add_rules_distinct:
  "add_rules alph rules trs = Inr trs' \<Longrightarrow> distinct (map fst trs) \<Longrightarrow>
   distinct (map fst trs')"
proof (induction alph rules trs arbitrary: trs' rule: add_rules.induct)
  case (1 tape_alph trs)
  then show ?case by simp
next
  case (2 tape_alph t rest trs)
  from "2.prems"(1) have len: "length (read_symbols t) = length (write_symbols t)"
    by (auto split: if_splits)
  with "2.prems"(1) obtain trs1 where
    s: "add_symbols tape_alph t (zip (read_symbols t) (write_symbols t)) trs = Inr trs1"
    and r: "add_rules tape_alph rest trs1 = Inr trs'"
    by (auto split: sum.splits)
  from add_symbols_distinct [OF s "2.prems"(2)] "2.IH" [OF _ s r] len
  show ?case by simp
qed

lemma add_rules_origin:
  "add_rules alph rules trs = Inr trs' \<Longrightarrow> map_of trs' k = Some tr \<Longrightarrow>
   map_of trs k = Some tr \<or>
   (\<exists>t\<in>set rules. fst k = rule_state t \<and>
      (snd k, write_symbol tr) \<in> set (zip (read_symbols t) (write_symbols t)) \<and>
      next_state tr = rule_next t \<and> move_dir tr = rule_move t)"
proof (induction alph rules trs arbitrary: trs' rule: add_rules.induct)
  case (1 tape_alph trs)
  then show ?case by simp
next
  case (2 tape_alph t rest trs)
  from "2.prems"(1) have len: "length (read_symbols t) = length (write_symbols t)"
    by (auto split: if_splits)
  with "2.prems"(1) obtain trs1 where
    s: "add_symbols tape_alph t (zip (read_symbols t) (write_symbols t)) trs = Inr trs1"
    and r: "add_rules tape_alph rest trs1 = Inr trs'"
    by (auto split: sum.splits)
  from "2.IH" [OF _ s r "2.prems"(2)] len
  consider (here) "map_of trs1 k = Some tr"
    | (later) "\<exists>t\<in>set rest. fst k = rule_state t \<and>
      (snd k, write_symbol tr) \<in> set (zip (read_symbols t) (write_symbols t)) \<and>
      next_state tr = rule_next t \<and> move_dir tr = rule_move t"
    by auto
  then show ?case
  proof cases
    case here
    show ?thesis
    proof (cases "map_of (rev (zip (read_symbols t) (write_symbols t))) (snd k)")
      case None
      with here add_symbols_lookup [OF s, of k] show ?thesis by simp
    next
      case (Some w)
      then have "(snd k, w) \<in> set (zip (read_symbols t) (write_symbols t))"
        using map_of_SomeD by fastforce
      with Some here add_symbols_lookup [OF s, of k] show ?thesis
        by (auto split: if_splits)
    qed
  next
    case later
    then show ?thesis by auto
  qed
qed

lemma overlap_tm_built: "from_yaml_config overlap_conf = Inr overlap_tm"
  by (simp add: from_yaml_config_def overlap_conf_def overlap_rule_1_def overlap_rule_2_def
      example_conf_def overlap_tm_def init_def read_symbols_def write_symbols_def Let_def
      insert_commute)

lemma from_yaml_config_Inr:
  "from_yaml_config mt = Inr tm \<Longrightarrow>
   add_rules (conf_tape_alphabet mt) (conf_transitions mt) [] = Inr (transitions tm)"
  by (auto simp: from_yaml_config_def init_def Let_def split: sum.splits if_splits)

lemma from_yaml_config_rules_ok:
  assumes "from_yaml_config mt = Inr tm" "t \<in> set (conf_transitions mt)"
  shows "length (read_symbols t) = length (write_symbols t) \<and>
    set (read_symbols t) \<union> set (write_symbols t) \<subseteq> set (conf_tape_alphabet mt)"
  using add_rules_ok [of "conf_tape_alphabet mt" "conf_transitions mt" "[]"]
    from_yaml_config_Inr [OF assms(1)] assms(2) by blast

lemma from_yaml_config_fails:
  "t \<in> set (conf_transitions mt) \<Longrightarrow>
   length (read_symbols t) \<noteq> length (write_symbols t) \<or>
     \<not> set (read_symbols t) \<union> set (write_symbols t) \<subseteq> set (conf_tape_alphabet mt) \<Longrightarrow>
   \<exists>e. from_yaml_config mt = Inl e"
  using from_yaml_config_rules_ok [of mt _ t] by (cases "from_yaml_config mt") auto

lemma add_symbols_entry:
  assumes len: "length (read_symbols t) = length (write_symbols t)"
    and s: "add_symbols alph t (zip (read_symbols t) (write_symbols t)) trs = Inr trs'"
    and r: "r \<in> set (read_symbols t)"
  shows "\<exists>w. (r, w) \<in> set (zip (read_symbols t) (write_symbols t)) \<and>
     map_of trs' (rule_state t, r) =
       Some \<lparr>next_state = rule_next t, write_symbol = w, move_dir = rule_move t\<rparr>"
proof -
  from r have "r \<in> fst ` set (rev (zip (read_symbols t) (write_symbols t)))"
    using zip_sides [OF len] by simp
  then obtain w where w: "map_of (rev (zip (read_symbols t) (write_symbols t))) r = Some w"
    by (metis map_of_eq_None_iff not_Some_eq)
  then have "(r, w) \<in> set (zip (read_symbols t) (write_symbols t))"
    using map_of_SomeD by fastforce
  moreover have "map_of trs' (rule_state t, r) =
      Some \<lparr>next_state = rule_next t, write_symbol = w, move_dir = rule_move t\<rparr>"
    using add_symbols_lookup [OF s, of "(rule_state t, r)"] w by simp
  ultimately show ?thesis by blast
qed

text \<open>
  Claim C8. In the builder, a rule whose \<open>read\<close> and \<open>write\<close> are lists of unequal
  length makes the construction fail; a single \<open>write\<close> symbol with a list \<open>read\<close>
  is replicated to the length of that list; the construction fails when a read or
  write symbol of a rule is not in the tape alphabet; and when it succeeds, the
  table has exactly one entry for each pair of a rule's state and one of its read
  symbols, each entry with the next state and the move of a rule it comes from and
  a write symbol paired with its read symbol in that rule. The inner loop, run on one
  rule, leaves for each read symbol of the rule an entry with the rule's next state
  and move.
\<close>

theorem builder_expands_rules:
  "(t \<in> set (conf_transitions mt) \<and> rule_read t = ListOf rs \<and> rule_write t = ListOf ws \<and>
      length rs \<noteq> length ws \<longrightarrow> (\<exists>e. from_yaml_config mt = Inl e)) \<and>
   (rule_read t = ListOf rs \<and> rule_write t = Scalar w \<longrightarrow>
      write_symbols t = replicate (length rs) w) \<and>
   (t \<in> set (conf_transitions mt) \<and>
      \<not> set (read_symbols t) \<union> set (write_symbols t) \<subseteq> set (conf_tape_alphabet mt) \<longrightarrow>
      (\<exists>e. from_yaml_config mt = Inl e)) \<and>
   (from_yaml_config mt = Inr tm \<longrightarrow>
      distinct (dict_keys (transitions tm)) \<and>
      set (dict_keys (transitions tm)) =
        {(rule_state t', r) | t' r. t' \<in> set (conf_transitions mt) \<and> r \<in> set (read_symbols t')} \<and>
      (\<forall>k tr. map_of (transitions tm) k = Some tr \<longrightarrow>
         (\<exists>t'\<in>set (conf_transitions mt). fst k = rule_state t' \<and>
            (snd k, write_symbol tr) \<in> set (zip (read_symbols t') (write_symbols t')) \<and>
            next_state tr = rule_next t' \<and> move_dir tr = rule_move t'))) \<and>
   (length (read_symbols t) = length (write_symbols t) \<and>
    add_symbols alph t (zip (read_symbols t) (write_symbols t)) trs = Inr trs' \<and>
    r \<in> set (read_symbols t) \<longrightarrow>
      (\<exists>w'. (r, w') \<in> set (zip (read_symbols t) (write_symbols t)) \<and>
         map_of trs' (rule_state t, r) =
           Some \<lparr>next_state = rule_next t, write_symbol = w', move_dir = rule_move t\<rparr>))"
proof (intro conjI impI)
  assume "t \<in> set (conf_transitions mt) \<and> rule_read t = ListOf rs \<and> rule_write t = ListOf ws \<and>
      length rs \<noteq> length ws"
  then show "\<exists>e. from_yaml_config mt = Inl e"
    by (intro from_yaml_config_fails [of t]) (simp_all add: read_symbols_def write_symbols_def)
next
  assume "rule_read t = ListOf rs \<and> rule_write t = Scalar w"
  then show "write_symbols t = replicate (length rs) w"
    by (simp add: read_symbols_def write_symbols_def)
next
  assume "t \<in> set (conf_transitions mt) \<and>
      \<not> set (read_symbols t) \<union> set (write_symbols t) \<subseteq> set (conf_tape_alphabet mt)"
  then show "\<exists>e. from_yaml_config mt = Inl e"
    by (intro from_yaml_config_fails [of t]) simp_all
next
  assume ok: "from_yaml_config mt = Inr tm"
  note r = from_yaml_config_Inr [OF ok]
  show "distinct (dict_keys (transitions tm))"
    using add_rules_distinct [OF r] by (simp add: dict_keys_def)
  show "set (dict_keys (transitions tm)) =
        {(rule_state t', r) | t' r. t' \<in> set (conf_transitions mt) \<and> r \<in> set (read_symbols t')}"
    using add_rules_keys [OF r] by (simp add: dict_keys_def)
  show "\<forall>k tr. map_of (transitions tm) k = Some tr \<longrightarrow>
         (\<exists>t'\<in>set (conf_transitions mt). fst k = rule_state t' \<and>
            (snd k, write_symbol tr) \<in> set (zip (read_symbols t') (write_symbols t')) \<and>
            next_state tr = rule_next t' \<and> move_dir tr = rule_move t')"
    using add_rules_origin [OF r] by simp
next
  assume "length (read_symbols t) = length (write_symbols t) \<and>
    add_symbols alph t (zip (read_symbols t) (write_symbols t)) trs = Inr trs' \<and>
    r \<in> set (read_symbols t)"
  then show "\<exists>w'. (r, w') \<in> set (zip (read_symbols t) (write_symbols t)) \<and>
         map_of trs' (rule_state t, r) =
           Some \<lparr>next_state = rule_next t, write_symbol = w', move_dir = rule_move t\<rparr>"
    using add_symbols_entry [of t alph trs trs' r] by blast
qed

text \<open>
  The theorem at a rule with lists of lengths 2 and 1, at a rule that writes a symbol
  outside the tape alphabet, and at a configuration that the builder accepts, whose
  second rule has a list to read and a single symbol to write.
\<close>

theorem builder_expands_rules_witness:
  "(\<exists>e. from_yaml_config mismatch_conf = Inl e) \<and>
   (\<exists>e. from_yaml_config bad_symbol_conf = Inl e) \<and>
   write_symbols overlap_rule_2 = [''B'', ''B''] \<and>
   from_yaml_config overlap_conf = Inr overlap_tm \<and>
   distinct (dict_keys (transitions overlap_tm)) \<and>
   set (dict_keys (transitions overlap_tm)) = {(''q0'', ''a''), (''q0'', ''B'')}"
proof -
  have a: "\<exists>e. from_yaml_config mismatch_conf = Inl e"
    using builder_expands_rules [where mt = mismatch_conf and t = mismatch_rule
        and rs = "[''a'', ''B'']" and ws = "[''a'']", THEN conjunct1]
    by (simp add: mismatch_conf_def mismatch_rule_def)
  have b: "\<exists>e. from_yaml_config bad_symbol_conf = Inl e"
    using builder_expands_rules [where mt = bad_symbol_conf and t = bad_symbol_rule,
        THEN conjunct2, THEN conjunct2, THEN conjunct1]
    by (simp add: bad_symbol_conf_def bad_symbol_rule_def example_conf_def
        read_symbols_def write_symbols_def)
  have c: "write_symbols overlap_rule_2 = [''B'', ''B'']"
    using builder_expands_rules [where t = overlap_rule_2 and rs = "[''a'', ''B'']"
        and w = "''B''", THEN conjunct2, THEN conjunct1]
    by (simp add: overlap_rule_2_def)
  have d: "distinct (dict_keys (transitions overlap_tm))"
    using builder_expands_rules [where mt = overlap_conf and tm = overlap_tm,
        THEN conjunct2, THEN conjunct2, THEN conjunct2, THEN conjunct1] overlap_tm_built
    by blast
  have e: "set (dict_keys (transitions overlap_tm)) = {(''q0'', ''a''), (''q0'', ''B'')}"
    by (simp add: overlap_tm_def dict_keys_def)
  from a b c d e overlap_tm_built show ?thesis by simp
qed

lemma from_yaml_config_succeeds_iff:
  "(\<exists>tm. from_yaml_config mt = Inr tm) \<longleftrightarrow>
     (\<forall>t\<in>set (conf_transitions mt). length (read_symbols t) = length (write_symbols t) \<and>
        set (read_symbols t) \<union> set (write_symbols t) \<subseteq> set (conf_tape_alphabet mt)) \<and>
     conf_initial_state mt \<in> set (conf_states mt) \<and>
     set (conf_accept_states mt) \<subseteq> set (conf_states mt) \<and>
     (case conf_blank_symbol mt of None \<Rightarrow> ''B'' | Some b \<Rightarrow> b) \<in> set (conf_tape_alphabet mt)"
proof (cases "add_rules (conf_tape_alphabet mt) (conf_transitions mt) []")
  case (Inl e)
  with add_rules_ok [of "conf_tape_alphabet mt" "conf_transitions mt" "[]"]
  show ?thesis by (auto simp: from_yaml_config_def)
next
  case (Inr trs)
  with add_rules_ok [of "conf_tape_alphabet mt" "conf_transitions mt" "[]"]
  have "\<forall>t\<in>set (conf_transitions mt). length (read_symbols t) = length (write_symbols t) \<and>
        set (read_symbols t) \<union> set (write_symbols t) \<subseteq> set (conf_tape_alphabet mt)"
    by blast
  with Inr show ?thesis
    by (simp add: from_yaml_config_def init_def Let_def)
qed

lemma last_rule_wins:
  assumes ok: "from_yaml_config mt = Inr tm"
    and split: "conf_transitions mt = pre @ t # post"
    and r: "r \<in> set (read_symbols t)"
    and post: "\<forall>t'\<in>set post. rule_state t' = rule_state t \<longrightarrow> r \<notin> set (read_symbols t')"
  shows "\<exists>w. map_of (rev (zip (read_symbols t) (write_symbols t))) r = Some w \<and>
     map_of (transitions tm) (rule_state t, r) =
       Some \<lparr>next_state = rule_next t, write_symbol = w, move_dir = rule_move t\<rparr>"
proof -
  let ?alph = "conf_tape_alphabet mt"
  from from_yaml_config_Inr [OF ok] split
  have all: "add_rules ?alph (pre @ t # post) [] = Inr (transitions tm)" by simp
  then obtain trs1 where pre: "add_rules ?alph pre [] = Inr trs1"
    and rest: "add_rules ?alph (t # post) trs1 = Inr (transitions tm)"
    by (auto simp: add_rules_append split: sum.splits)
  from rest have len: "length (read_symbols t) = length (write_symbols t)"
    by (auto split: if_splits)
  with rest obtain trs2 where
    s: "add_symbols ?alph t (zip (read_symbols t) (write_symbols t)) trs1 = Inr trs2"
    and p: "add_rules ?alph post trs2 = Inr (transitions tm)"
    by (auto split: sum.splits)
  from r len have "r \<in> fst ` set (rev (zip (read_symbols t) (write_symbols t)))"
    using zip_sides [OF len] by simp
  then obtain w where w: "map_of (rev (zip (read_symbols t) (write_symbols t))) r = Some w"
    by (metis map_of_eq_None_iff not_Some_eq)
  have "map_of trs2 (rule_state t, r) =
      Some \<lparr>next_state = rule_next t, write_symbol = w, move_dir = rule_move t\<rparr>"
    using add_symbols_lookup [OF s, of "(rule_state t, r)"] w by simp
  moreover have "map_of (transitions tm) (rule_state t, r) = map_of trs2 (rule_state t, r)"
    using add_rules_untouched [OF p, of "(rule_state t, r)"] post by simp
  ultimately show ?thesis using w by simp
qed

text \<open>
  Claim C10. Whether the builder succeeds depends on each rule alone and on the
  checks of the constructor, not on two rules sharing a key; and the entry of the
  table for a state and a read symbol is the transition of the last rule of the
  list that has them (within that rule, of the last place of the symbol in its
  \<open>read\<close> list), whatever the rules before it stored there.
\<close>

theorem later_rule_overwrites:
  "((\<exists>tm. from_yaml_config mt = Inr tm) \<longleftrightarrow>
     (\<forall>t\<in>set (conf_transitions mt). length (read_symbols t) = length (write_symbols t) \<and>
        set (read_symbols t) \<union> set (write_symbols t) \<subseteq> set (conf_tape_alphabet mt)) \<and>
     conf_initial_state mt \<in> set (conf_states mt) \<and>
     set (conf_accept_states mt) \<subseteq> set (conf_states mt) \<and>
     (case conf_blank_symbol mt of None \<Rightarrow> ''B'' | Some b \<Rightarrow> b) \<in> set (conf_tape_alphabet mt)) \<and>
   (from_yaml_config mt = Inr tm \<and> conf_transitions mt = pre @ t # post \<and>
    r \<in> set (read_symbols t) \<and>
    (\<forall>t'\<in>set post. rule_state t' = rule_state t \<longrightarrow> r \<notin> set (read_symbols t')) \<longrightarrow>
      (\<exists>w. map_of (rev (zip (read_symbols t) (write_symbols t))) r = Some w \<and>
         map_of (transitions tm) (rule_state t, r) =
           Some \<lparr>next_state = rule_next t, write_symbol = w, move_dir = rule_move t\<rparr>))"
  using from_yaml_config_succeeds_iff [of mt] last_rule_wins [of mt tm pre t post r]
  by blast

text \<open>
  The theorem at two rules that both have the key \<open>(q0, a)\<close>: the builder succeeds
  and the entry is the transition of the second rule.
\<close>

theorem later_rule_overwrites_witness:
  "from_yaml_config overlap_conf = Inr overlap_tm \<and>
   conf_transitions overlap_conf = [overlap_rule_1, overlap_rule_2] \<and>
   (rule_state overlap_rule_1, read_symbols overlap_rule_1) = (''q0'', [''a'']) \<and>
   (rule_state overlap_rule_2, read_symbols overlap_rule_2) = (''q0'', [''a'', ''B'']) \<and>
   map_of (transitions overlap_tm) (''q0'', ''a'') =
     Some \<lparr>next_state = rule_next overlap_rule_2, write_symbol = ''B'',
           move_dir = rule_move overlap_rule_2\<rparr>"
proof -
  have rules: "conf_transitions overlap_conf = [overlap_rule_1] @ overlap_rule_2 # []"
    by (simp add: overlap_conf_def)
  have r: "''a'' \<in> set (read_symbols overlap_rule_2)"
    by (simp add: overlap_rule_2_def read_symbols_def)
  from later_rule_overwrites [where mt = overlap_conf and tm = overlap_tm
      and pre = "[overlap_rule_1]" and t = overlap_rule_2 and post = "[]" and r = "''a''",
      THEN conjunct2] overlap_tm_built rules r
  obtain w where
    w: "map_of (rev (zip (read_symbols overlap_rule_2) (write_symbols overlap_rule_2))) ''a''
          = Some w"
    and e: "map_of (transitions overlap_tm) (rule_state overlap_rule_2, ''a'') =
      Some \<lparr>next_state = rule_next overlap_rule_2, write_symbol = w,
            move_dir = rule_move overlap_rule_2\<rparr>"
    by auto
  from w have "w = ''B''"
    by (simp add: overlap_rule_2_def read_symbols_def write_symbols_def)
  with e have "map_of (transitions overlap_tm) (''q0'', ''a'') =
     Some \<lparr>next_state = rule_next overlap_rule_2, write_symbol = ''B'',
           move_dir = rule_move overlap_rule_2\<rparr>"
    by (simp add: overlap_rule_2_def)
  with overlap_tm_built show ?thesis
    by (simp add: overlap_conf_def overlap_rule_1_def overlap_rule_2_def read_symbols_def)
qed

end
